theory Spec2Isabelle
  imports Main "HOL-Library.Sublist" "HOL-Library.Multiset"
begin

section \<open>Strings\<close>

text \<open>
  A Python \<open>str\<close> is modelled as a \<open>string\<close>; a \<open>char\<close> stands for the code point
  of the same number, so the model covers the code points 0 to 255. The character
  classes below are Python 3's Unicode classes on that range.
\<close>

definition is_ascii_alnum :: "char \<Rightarrow> bool" where
  \<comment> \<open>the class \<open>a-zA-Z0-9\<close> of the two identifier patterns\<close>
  "is_ascii_alnum c =
     (let n = (of_char c :: nat)
      in (97 \<le> n \<and> n \<le> 122) \<or> (65 \<le> n \<and> n \<le> 90) \<or> (48 \<le> n \<and> n \<le> 57))"

definition is_alnum :: "char \<Rightarrow> bool" where
  \<comment> \<open>\<open>str.isalnum\<close> on one character: ASCII letters and digits, and the Latin-1
      letters and numeric characters\<close>
  "is_alnum c =
     (let n = (of_char c :: nat)
      in is_ascii_alnum c \<or> n = 170 \<or> n = 178 \<or> n = 179 \<or> n = 181 \<or> n = 185 \<or> n = 186
         \<or> (188 \<le> n \<and> n \<le> 190) \<or> (192 \<le> n \<and> n \<le> 214) \<or> (216 \<le> n \<and> n \<le> 246)
         \<or> 248 \<le> n)"

definition is_word :: "char \<Rightarrow> bool" where
  \<comment> \<open>the class \<open>\w\<close> of a \<open>str\<close> pattern\<close>
  "is_word c = (is_alnum c \<or> c = CHR ''_'')"

definition is_space :: "char \<Rightarrow> bool" where
  \<comment> \<open>\<open>str.isspace\<close>: the characters \<open>str.strip()\<close> removes\<close>
  "is_space c =
     (let n = (of_char c :: nat)
      in (9 \<le> n \<and> n \<le> 13) \<or> (28 \<le> n \<and> n \<le> 32) \<or> n = 133 \<or> n = 160)"

definition strip :: "string \<Rightarrow> string" where
  "strip s = rev (dropWhile is_space (rev (dropWhile is_space s)))"

definition lower_char :: "char \<Rightarrow> char" where
  "lower_char c =
     (let n = (of_char c :: nat)
      in if (65 \<le> n \<and> n \<le> 90) \<or> (192 \<le> n \<and> n \<le> 222 \<and> n \<noteq> 215)
         then char_of (n + 32) else c)"

definition lower :: "string \<Rightarrow> string" where
  "lower s = map lower_char s"

fun contains :: "string \<Rightarrow> string \<Rightarrow> bool" where
  \<comment> \<open>\<open>contains sub s\<close> is Python's \<open>sub in s\<close>\<close>
  "contains sub [] = (sub = [])"
| "contains sub (c # cs) = (prefix sub (c # cs) \<or> contains sub cs)"

definition zfill :: "nat \<Rightarrow> string \<Rightarrow> string" where
  \<comment> \<open>\<open>s.zfill(width)\<close>: zeros go after a leading sign\<close>
  "zfill width s =
     (let pad = replicate (width - length s) CHR ''0''
      in case s of
           [] \<Rightarrow> pad
         | c # cs \<Rightarrow> if c = CHR ''+'' \<or> c = CHR ''-'' then c # pad @ cs else pad @ s)"

function replace_str :: "string \<Rightarrow> string \<Rightarrow> string \<Rightarrow> string" where
  \<comment> \<open>\<open>s.replace(old, new)\<close> for a non-empty \<open>old\<close>: leftmost, non-overlapping\<close>
  "replace_str old new [] = []"
| "replace_str old new (c # cs) =
     (if old \<noteq> [] \<and> prefix old (c # cs)
      then new @ replace_str old new (drop (length old) (c # cs))
      else c # replace_str old new cs)"
  by pat_completeness auto
termination
  by (relation "measure (\<lambda>(old, new, s). length s)") (auto simp: neq_Nil_conv)

definition basename :: "string \<Rightarrow> string" where
  \<comment> \<open>\<open>os.path.basename\<close>: what follows the last slash\<close>
  "basename p = rev (takeWhile (\<lambda>c. c \<noteq> CHR ''/'') (rev p))"

definition path_join :: "string \<Rightarrow> string \<Rightarrow> string" where
  \<comment> \<open>\<open>os.path.join(a, b)\<close>\<close>
  "path_join a b =
     (if b \<noteq> [] \<and> hd b = CHR ''/'' then b
      else if a = [] \<or> last a = CHR ''/'' then a @ b
      else a @ ''/'' @ b)"

section \<open>Name Sanitizer\<close>

definition replace_unsafe :: "char \<Rightarrow> char" where
  \<comment> \<open>one substitution of \<open>re.sub(r'[^\w\-.]', '_', name)\<close>\<close>
  "replace_unsafe c = (if is_word c \<or> c = CHR ''-'' \<or> c = CHR ''.'' then c else CHR ''_'')"

function collapse_underscores :: "string \<Rightarrow> string" where
  \<comment> \<open>\<open>re.sub(r'_+', '_', name)\<close>: each maximal run of underscores becomes one\<close>
  "collapse_underscores [] = []"
| "collapse_underscores (c # cs) =
     (if c = CHR ''_''
      then CHR ''_'' # collapse_underscores (dropWhile (\<lambda>d. d = CHR ''_'') cs)
      else c # collapse_underscores cs)"
  by pat_completeness auto
termination
  by (relation "measure length") (auto simp: length_dropWhile_le less_Suc_eq_le)

definition sanitize_filename :: "string \<Rightarrow> string" where
  "sanitize_filename name = collapse_underscores (map replace_unsafe name)"

section \<open>Identifier Extractor\<close>

definition is_id_char :: "char \<Rightarrow> bool" where
  \<comment> \<open>the class \<open>[a-zA-Z0-9_-]\<close>\<close>
  "is_id_char c = (is_ascii_alnum c \<or> c = CHR ''_'' \<or> c = CHR ''-'')"

fun search_id :: "string \<Rightarrow> string \<Rightarrow> string option" where
  \<comment> \<open>group 1 of \<open>re.search(key + '([a-zA-Z0-9_-]+)', s)\<close>: the leftmost position where
      \<open>key\<close> is followed by an identifier character, and the longest run from there\<close>
  "search_id key [] = None"
| "search_id key (c # cs) =
     (let run = takeWhile is_id_char (drop (length key) (c # cs))
      in if prefix key (c # cs) \<and> run \<noteq> [] then Some run else search_id key cs)"

definition extract_file_id :: "string \<Rightarrow> string option" where
  "extract_file_id drive_url =
     (if drive_url = [] \<or> strip drive_url = [] then None
      else case search_id ''id='' drive_url of
             Some g \<Rightarrow> Some g
           | None \<Rightarrow> (case search_id ''/d/'' drive_url of
                        Some g \<Rightarrow> Some g
                      | None \<Rightarrow> None))"

section \<open>Task Builder\<close>

text \<open>
  A row of \<open>csv.DictReader\<close> maps each column name of the header to a cell. The cell of
  a column that a short line does not reach is Python's \<open>None\<close> (the reader's
  \<open>restval\<close>), so a cell is a \<open>string option\<close>: \<open>Some s\<close> is the text \<open>s\<close> and \<open>None\<close> is
  \<open>None\<close>. A name that is no column of the header is no key of the row. Calling
  \<open>.strip()\<close> on \<open>None\<close> raises \<open>AttributeError\<close> and \<open>re.match\<close> on \<open>None\<close> raises
  \<open>TypeError\<close>; nothing catches them, so the exception leaves \<open>process_csv_file\<close> and
  \<open>main\<close>.
\<close>

datatype py_error = AttributeError | TypeError

type_synonym cell = "string option"

type_synonym row = "string \<rightharpoonup> cell"

type_synonym download_task = "string \<times> string"

definition row_get :: "row \<Rightarrow> string \<Rightarrow> cell" where
  \<comment> \<open>\<open>row.get(key, '')\<close>: the default is for a missing key only\<close>
  "row_get r key = (case r key of None \<Rightarrow> Some [] | Some v \<Rightarrow> v)"

definition match_before_bracket :: "string \<Rightarrow> string option" where
  \<comment> \<open>group 1 of \<open>re.match(r'([^[]+)', s)\<close>\<close>
  "match_before_bracket s =
     (let g = takeWhile (\<lambda>c. c \<noteq> CHR ''['') s in if g = [] then None else Some g)"

definition constituency_of :: "string \<Rightarrow> string" where
  "constituency_of ac_name_full =
     sanitize_filename
       (case match_before_bracket ac_name_full of
          Some g \<Rightarrow> strip g
        | None \<Rightarrow> ''Unknown'')"

definition district_of :: "string \<Rightarrow> string" where
  "district_of csv_path = replace_str ''-photo-links.csv'' [] (basename csv_path)"

definition photo_columns :: "(string \<times> string) list" where
  "photo_columns =
     [(''Photo of Polling Station Building (PSB)'', ''PSB''),
      (''Photo of Polling Station Premises with PS Building (PSP)'', ''PSP'')]"

definition output_filename ::
  "string \<Rightarrow> string \<Rightarrow> string \<Rightarrow> string \<Rightarrow> string \<Rightarrow> string \<Rightarrow> string" where
  "output_filename district_safe constituency polling_station_safe ps_type_safe photo_type file_id =
     district_safe @ ''-'' @ constituency @ ''-PS'' @ polling_station_safe @ ''-''
       @ ps_type_safe @ ''-'' @ photo_type @ ''-'' @ file_id @ ''.jpg''"

definition column_tasks ::
  "string \<Rightarrow> string \<Rightarrow> string \<Rightarrow> string \<Rightarrow> string \<Rightarrow> row \<Rightarrow> string \<times> string
     \<Rightarrow> download_task list" where
  \<comment> \<open>the body of the loop over the two photo columns; a \<open>None\<close> cell is falsy and is
      passed over like an empty one\<close>
  "column_tasks district_safe constituency polling_station_safe ps_type_safe output_dir r col =
     (case row_get r (fst col) of
        None \<Rightarrow> []
      | Some drive_url \<Rightarrow>
          if drive_url = [] \<or> strip drive_url = [] then []
          else case extract_file_id drive_url of
                 None \<Rightarrow> []
               | Some file_id \<Rightarrow>
                   if file_id = [] then []
                   else [(file_id,
                          path_join output_dir
                            (output_filename district_safe constituency polling_station_safe
                               ps_type_safe (snd col) file_id))])"

definition row_tasks :: "string \<Rightarrow> string \<Rightarrow> row \<Rightarrow> py_error + download_task list" where
  \<comment> \<open>the body of the loop over the rows, in the order of its statements: the station
      number is stripped first, then the station type, then the composite field is
      matched\<close>
  "row_tasks district output_dir r =
     (case row_get r ''Polling Station No.'' of
        None \<Rightarrow> Inl AttributeError
      | Some station \<Rightarrow>
          (case row_get r ''Polling Station Type'' of
             None \<Rightarrow> Inl AttributeError
           | Some station_type \<Rightarrow>
               (case row_get r ''AC No. & AC Name'' of
                  None \<Rightarrow> Inl TypeError
                | Some ac_name_full \<Rightarrow>
                    (let polling_station = strip station;
                         ps_type = strip station_type;
                         constituency = constituency_of ac_name_full;
                         district_safe = sanitize_filename district;
                         polling_station_safe = zfill 3 polling_station;
                         ps_type_safe = sanitize_filename ps_type
                     in Inr (concat (map (column_tasks district_safe constituency
                                            polling_station_safe ps_type_safe output_dir r)
                                       photo_columns))))))"

fun collect_tasks :: "string \<Rightarrow> string \<Rightarrow> row list \<Rightarrow> py_error + download_task list" where
  \<comment> \<open>the loop over the rows: the first exception ends it\<close>
  "collect_tasks district output_dir [] = Inr []"
| "collect_tasks district output_dir (r # rows) =
     (case row_tasks district output_dir r of
        Inl e \<Rightarrow> Inl e
      | Inr tasks \<Rightarrow>
          (case collect_tasks district output_dir rows of
             Inl e \<Rightarrow> Inl e
           | Inr more \<Rightarrow> Inr (tasks @ more)))"

definition build_tasks :: "string \<Rightarrow> string \<Rightarrow> row list \<Rightarrow> py_error + download_task list" where
  "build_tasks csv_path output_dir rows = collect_tasks (district_of csv_path) output_dir rows"

section \<open>Fetch Executor\<close>

text \<open>
  The filesystem maps each existing path to its size. One call of \<open>subprocess.run\<close>
  either completes with a return code and its standard error text, or raises
  \<open>TimeoutExpired\<close>, or raises another exception; in each case it may have changed the
  filesystem. The transport is a parameter: it receives the number of earlier
  invocations, the command line and the filesystem. Sleeps (whose random lengths are not
  modelled), invocations, deletions and printed messages are recorded in a trace.
\<close>

datatype outcome = Success | Skipped | Error

datatype response = Completed int string | TimeoutExpired | OtherException

datatype delay = Jitter | Backoff nat | ShortDelay | TimeoutDelay

datatype message =
    MsgOk string | MsgRateLimit | MsgFailed int string
  | MsgTimeoutRetry string | MsgTimeout string | MsgError string

datatype event = Sleep delay | Invoke "string list" | Remove string | Print message

type_synonym filesystem = "string \<rightharpoonup> nat"

type_synonym transport = "nat \<Rightarrow> string list \<Rightarrow> filesystem \<Rightarrow> response \<times> filesystem"

record world =
  fs :: filesystem
  calls :: nat
  trace :: "event list"

datatype step = Return outcome | Continue

definition emit :: "event \<Rightarrow> world \<Rightarrow> world" where
  "emit e w = w\<lparr>trace := trace w @ [e]\<rparr>"

definition remove_file :: "string \<Rightarrow> world \<Rightarrow> world" where
  \<comment> \<open>\<open>os.remove(path)\<close>\<close>
  "remove_file path w = emit (Remove path) (w\<lparr>fs := (fs w)(path := None)\<rparr>)"

definition gdown_cmd :: "string \<Rightarrow> string \<Rightarrow> string list" where
  "gdown_cmd file_id output_path =
     [''gdown'', ''https://drive.google.com/uc?id='' @ file_id, ''-O'', output_path, ''--quiet'']"

definition is_rate_limit :: "string \<Rightarrow> bool" where
  "is_rate_limit stderr =
     (let error_msg = (if stderr \<noteq> [] then lower stderr else [])
      in contains ''quota'' error_msg \<or> contains ''limit'' error_msg
         \<or> contains ''too many'' error_msg)"

definition invoked :: "string list \<Rightarrow> filesystem \<Rightarrow> world \<Rightarrow> world" where
  \<comment> \<open>the world after one more call of \<open>subprocess.run(cmd, ...)\<close> that left the
      filesystem \<open>fs1\<close>\<close>
  "invoked cmd fs1 w = emit (Invoke cmd) (w\<lparr>fs := fs1, calls := calls w + 1\<rparr>)"

definition attempt_step ::
  "transport \<Rightarrow> string \<Rightarrow> string \<Rightarrow> int \<Rightarrow> nat \<Rightarrow> world \<Rightarrow> step \<times> world" where
  \<comment> \<open>one iteration of the loop \<open>for attempt in range(max_retries)\<close>\<close>
  "attempt_step tr file_id output_path max_retries attempt w =
     (let cmd = gdown_cmd file_id output_path;
          (result, fs1) = tr (calls w) cmd (fs w);
          w1 = invoked cmd fs1 w
      in case result of
           Completed returncode stderr \<Rightarrow>
             if returncode = 0 \<and> fs1 output_path \<noteq> None \<and> 0 < the (fs1 output_path)
             then (Return Success, emit (Print (MsgOk (basename output_path))) w1)
             else
               let w2 = (if returncode = 0 \<and> fs1 output_path \<noteq> None
                         then remove_file output_path w1 else w1)
               in if is_rate_limit stderr
                  then (Continue, emit (Sleep (Backoff attempt)) (emit (Print MsgRateLimit) w2))
                  else if int attempt < max_retries - 1
                  then (Continue, emit (Sleep ShortDelay) w2)
                  else (Return Error,
                        emit (Print (MsgFailed max_retries (basename output_path))) w2)
         | TimeoutExpired \<Rightarrow>
             if int attempt < max_retries - 1
             then (Continue,
                   emit (Sleep TimeoutDelay)
                     (emit (Print (MsgTimeoutRetry (basename output_path))) w1))
             else (Return Error, emit (Print (MsgTimeout (basename output_path))) w1)
         | OtherException \<Rightarrow>
             (Return Error, emit (Print (MsgError (basename output_path))) w1))"

fun attempt_loop ::
  "transport \<Rightarrow> string \<Rightarrow> string \<Rightarrow> int \<Rightarrow> nat list \<Rightarrow> world \<Rightarrow> outcome \<times> world" where
  \<comment> \<open>the \<open>for\<close> loop over the remaining attempts, and the \<open>return 'error'\<close> after it\<close>
  "attempt_loop tr file_id output_path max_retries [] w = (Error, w)"
| "attempt_loop tr file_id output_path max_retries (attempt # rest) w =
     (case attempt_step tr file_id output_path max_retries attempt w of
        (Return r, w') \<Rightarrow> (r, w')
      | (Continue, w') \<Rightarrow> attempt_loop tr file_id output_path max_retries rest w')"

definition download_file ::
  "transport \<Rightarrow> string \<Rightarrow> string \<Rightarrow> int \<Rightarrow> world \<Rightarrow> outcome \<times> world" where
  "download_file tr file_id output_path max_retries w =
     (if fs w output_path \<noteq> None then (Skipped, w)
      else attempt_loop tr file_id output_path max_retries [0..<nat max_retries]
             (emit (Sleep Jitter) w))"

definition download_task :: "transport \<Rightarrow> download_task \<Rightarrow> world \<Rightarrow> outcome \<times> world" where
  \<comment> \<open>calls \<open>download_file\<close> with the default \<open>max_retries=3\<close>\<close>
  "download_task tr args w = download_file tr (fst args) (snd args) 3 w"

section \<open>Worker pool and Batch Aggregator\<close>

text \<open>
  The thread pool is modelled by the schedule in which the tasks run one after the
  other in the order of submission, the filesystem passed from each task to the next;
  the interleavings of several workers are not modelled. The pool and this schedule
  yield one outcome for each task. They can differ in the outcomes when two tasks of a
  batch have the same destination: two workers may both find the file absent and both
  invoke the transport, where the second task of this schedule finds the file of the
  first and is Skipped. Statements about the outcomes of a whole run are therefore made
  for batches with pairwise distinct destinations and for transports that write no file
  but the destination they are given, where a task depends on no other task.
\<close>

fun run_tasks :: "transport \<Rightarrow> download_task list \<Rightarrow> world \<Rightarrow> outcome list \<times> world" where
  "run_tasks tr [] w = ([], w)"
| "run_tasks tr (task # tasks) w =
     (let (r, w1) = download_task tr task w;
          (rs, w2) = run_tasks tr tasks w1
      in (r # rs, w2))"

type_synonym summary = "int \<times> int \<times> int"

fun count_result :: "summary \<Rightarrow> outcome \<Rightarrow> summary" where
  \<comment> \<open>the body of the loop over the completed futures\<close>
  "count_result (downloaded_count, skipped_count, error_count) result =
     (if result = Success then (downloaded_count + 1, skipped_count, error_count)
      else if result = Skipped then (downloaded_count, skipped_count + 1, error_count)
      else (downloaded_count, skipped_count, error_count + 1))"

definition count_results :: "outcome list \<Rightarrow> summary" where
  "count_results results = foldl count_result (0, 0, 0) results"

definition process_csv_file ::
  "transport \<Rightarrow> string \<Rightarrow> row list \<Rightarrow> string \<Rightarrow> world \<Rightarrow> py_error + summary \<times> world" where
  \<comment> \<open>all tasks are collected before the first download, so an exception of the Task
      Builder leaves the function before anything is downloaded\<close>
  "process_csv_file tr csv_path rows output_dir w =
     (case build_tasks csv_path output_dir rows of
        Inl e \<Rightarrow> Inl e
      | Inr download_tasks \<Rightarrow>
          (let (results, w') = run_tasks tr download_tasks w
           in Inr (count_results results, w')))"

fun main_loop ::
  "transport \<Rightarrow> (string \<times> row list) list \<Rightarrow> summary \<Rightarrow> world \<Rightarrow> py_error + summary \<times> world" where
  \<comment> \<open>the loop of \<open>main\<close> over the CSV files, adding up the three totals; an exception
      of a batch ends the run\<close>
  "main_loop tr [] totals w = Inr (totals, w)"
| "main_loop tr ((csv_file, rows) # csv_files) (total_downloaded, total_skipped, total_errors) w =
     (case process_csv_file tr csv_file rows ''photos'' w of
        Inl e \<Rightarrow> Inl e
      | Inr ((downloaded, skipped, errors), w') \<Rightarrow>
          main_loop tr csv_files
            (total_downloaded + downloaded, total_skipped + skipped, total_errors + errors) w')"

definition main ::
  "transport \<Rightarrow> (string \<times> row list) list \<Rightarrow> world \<Rightarrow> py_error + summary \<times> world" where
  "main tr csv_files w = main_loop tr csv_files (0, 0, 0) w"

section \<open>Predicates of the specification\<close>

definition safe_char :: "char \<Rightarrow> bool" where
  \<comment> \<open>the safe set: alphanumeric, underscore, hyphen, dot\<close>
  "safe_char c = (is_alnum c \<or> c = CHR ''_'' \<or> c = CHR ''-'' \<or> c = CHR ''.'')"

fun no_underscore_run :: "string \<Rightarrow> bool" where
  \<comment> \<open>no two underscores stand next to each other\<close>
  "no_underscore_run (c # d # cs) =
     ((c \<noteq> CHR ''_'' \<or> d \<noteq> CHR ''_'') \<and> no_underscore_run (d # cs))"
| "no_underscore_run cs = True"

definition match_here :: "string \<Rightarrow> string \<Rightarrow> bool" where
  \<comment> \<open>\<open>t\<close> starts with \<open>key\<close> followed by at least one identifier character\<close>
  "match_here key t =
     (prefix key t \<and> (case drop (length key) t of [] \<Rightarrow> False | c # _ \<Rightarrow> is_id_char c))"

definition key_occurs :: "string \<Rightarrow> string \<Rightarrow> bool" where
  \<comment> \<open>the pattern \<open>key\<close> followed by an identifier character occurs somewhere in \<open>s\<close>\<close>
  "key_occurs key s = list_ex (match_here key) (suffixes s)"

definition found_by :: "string \<Rightarrow> string \<Rightarrow> string \<Rightarrow> bool" where
  \<comment> \<open>\<open>g\<close> is the longest run of identifier characters after the leftmost occurrence of
      the pattern \<open>key\<close> in \<open>s\<close>\<close>
  "found_by key s g =
     (g \<noteq> [] \<and> list_all is_id_char g \<and>
      (\<exists>pre post. s = pre @ key @ g @ post
         \<and> (case post of [] \<Rightarrow> True | c # _ \<Rightarrow> \<not> is_id_char c)
         \<and> \<not> key_occurs key (pre @ key)))"

definition rate_limit_term :: "string \<Rightarrow> bool" where
  \<comment> \<open>the diagnostic contains one of the rate-limit terms\<close>
  "rate_limit_term diagnostic =
     (contains ''quota'' diagnostic \<or> contains ''limit'' diagnostic
      \<or> contains ''too many'' diagnostic)"


definition sub_region_label :: "string \<Rightarrow> string" where
  \<comment> \<open>the text before the first bracket of the composite field, trimmed, sanitized\<close>
  "sub_region_label composite =
     sanitize_filename (strip (takeWhile (\<lambda>c. c \<noteq> CHR ''['') composite))"

definition claimed_filename ::
  "string \<Rightarrow> string \<Rightarrow> string \<Rightarrow> string \<Rightarrow> string \<Rightarrow> string \<Rightarrow> string" where
  \<comment> \<open>the filename as the specification words it: every label sanitized, the station
      number trimmed and padded\<close>
  "claimed_filename batch_label composite station station_type role resource_id =
     sanitize_filename batch_label @ ''-'' @ sub_region_label composite @ ''-PS''
       @ zfill 3 (strip station) @ ''-'' @ sanitize_filename station_type @ ''-'' @ role
       @ ''-'' @ resource_id @ ''.jpg''"

definition built_filename ::
  "string \<Rightarrow> string \<Rightarrow> string \<Rightarrow> string \<Rightarrow> string \<Rightarrow> string \<Rightarrow> string" where
  \<comment> \<open>the same with the two differences of the code: the sub-region label of a composite
      field that is empty or starts with a bracket is \<open>Unknown\<close>, and the station type is
      trimmed before it is sanitized\<close>
  "built_filename batch_label composite station station_type role resource_id =
     sanitize_filename batch_label @ ''-''
       @ (if composite = [] \<or> hd composite = CHR ''['' then ''Unknown''
          else sub_region_label composite)
       @ ''-PS'' @ zfill 3 (strip station) @ ''-'' @ sanitize_filename (strip station_type)
       @ ''-'' @ role @ ''-'' @ resource_id @ ''.jpg''"

definition photo_tasks ::
  "string \<Rightarrow> string \<Rightarrow> string \<Rightarrow> string \<Rightarrow> string \<Rightarrow> row \<Rightarrow> string \<times> string
     \<Rightarrow> download_task list" where
  \<comment> \<open>what one photo field \<open>(column, role)\<close> of a row contributes: nothing when its cell
      holds no identifier, else the identifier with the path of the filename above\<close>
  "photo_tasks batch_label composite station station_type output_dir r col =
     (case row_get r (fst col) of
        None \<Rightarrow> []
      | Some reference \<Rightarrow>
          (case extract_file_id reference of
             None \<Rightarrow> []
           | Some resource_id \<Rightarrow>
               [(resource_id,
                 path_join output_dir
                   (built_filename batch_label composite station station_type (snd col)
                      resource_id))]))"

section \<open>The Name Sanitizer is idempotent\<close>

lemma replace_unsafe_safe: "safe_char (replace_unsafe c)"
  by (simp add: replace_unsafe_def safe_char_def is_word_def)

lemma replace_unsafe_id: "safe_char c \<Longrightarrow> replace_unsafe c = c"
  by (simp add: replace_unsafe_def safe_char_def is_word_def)

lemma map_replace_unsafe_id: "list_all safe_char s \<Longrightarrow> map replace_unsafe s = s"
  by (induction s) (simp_all add: replace_unsafe_id)

lemma collapse_underscores_set: "set (collapse_underscores s) \<subseteq> set s"
proof (induction s rule: collapse_underscores.induct)
  case 1
  then show ?case by simp
next
  case (2 c cs)
  have "set (dropWhile (\<lambda>d. d = CHR ''_'') cs) \<subseteq> set cs"
    by (simp add: set_dropWhileD subsetI)
  with 2 show ?case by auto
qed

lemma collapse_underscores_safe:
  "list_all safe_char s \<Longrightarrow> list_all safe_char (collapse_underscores s)"
  using collapse_underscores_set [of s] by (auto simp: list_all_iff)

lemma dropWhile_collapse:
  assumes "s = [] \<or> hd s \<noteq> CHR ''_''"
  shows "dropWhile (\<lambda>d. d = CHR ''_'') (collapse_underscores s) = collapse_underscores s"
proof (cases s)
  case Nil
  then show ?thesis by simp
next
  case (Cons c cs)
  with assms show ?thesis by simp
qed

lemma dropWhile_underscore_hd:
  "dropWhile (\<lambda>d. d = CHR ''_'') cs = [] \<or> hd (dropWhile (\<lambda>d. d = CHR ''_'') cs) \<noteq> CHR ''_''"
  using hd_dropWhile [of "\<lambda>d. d = CHR ''_''" cs] by blast

lemma collapse_underscores_idem:
  "collapse_underscores (collapse_underscores s) = collapse_underscores s"
proof (induction s rule: collapse_underscores.induct)
  case 1
  then show ?case by simp
next
  case (2 c cs)
  show ?case
  proof (cases "c = CHR ''_''")
    case True
    with 2 show ?thesis
      by (simp add: dropWhile_collapse [OF dropWhile_underscore_hd])
  next
    case False
    with 2 show ?thesis by simp
  qed
qed

lemma no_underscore_run_Cons:
  "c \<noteq> CHR ''_'' \<Longrightarrow> no_underscore_run (c # s) = no_underscore_run s"
  by (cases s) simp_all

lemma collapse_no_run: "no_underscore_run (collapse_underscores s)"
proof (induction s rule: collapse_underscores.induct)
  case 1
  then show ?case by simp
next
  case (2 c cs)
  let ?r = "dropWhile (\<lambda>d. d = CHR ''_'') cs"
  show ?case
  proof (cases "c = CHR ''_''")
    case True
    show ?thesis
    proof (cases ?r)
      case Nil
      with True show ?thesis unfolding collapse_underscores.simps(2) Nil by simp
    next
      case (Cons e es)
      then have "e \<noteq> CHR ''_''" using dropWhile_underscore_hd [of cs] by simp
      with True Cons 2 show ?thesis by simp
    qed
  next
    case False
    with 2 show ?thesis by (simp add: no_underscore_run_Cons)
  qed
qed

lemma sanitize_safe: "list_all safe_char (sanitize_filename x)"
  unfolding sanitize_filename_def
  by (rule collapse_underscores_safe) (simp add: list_all_iff replace_unsafe_safe)

lemma sanitize_idem: "sanitize_filename (sanitize_filename x) = sanitize_filename x"
proof -
  have "map replace_unsafe (sanitize_filename x) = sanitize_filename x"
    by (rule map_replace_unsafe_id) (rule sanitize_safe)
  then show ?thesis
    by (simp add: sanitize_filename_def collapse_underscores_idem)
qed

lemma sanitize_as_specified:
  "sanitize_filename x =
     collapse_underscores (map (\<lambda>c. if safe_char c then c else CHR ''_'') x)"
  by (simp add: sanitize_filename_def replace_unsafe_def safe_char_def is_word_def cong: map_cong)

text \<open>
  C8. The Name Sanitizer replaces every character outside the safe set (alphanumeric,
  underscore, hyphen, dot) by an underscore and then collapses every run of underscores
  into one; its result holds safe characters only and no run of underscores; it is
  idempotent; and it maps \<open>Paschim Champaran\<close> to \<open>Paschim_Champaran\<close>.
\<close>

theorem sanitize_filename_idempotent:
  "sanitize_filename x =
     collapse_underscores (map (\<lambda>c. if safe_char c then c else CHR ''_'') x)
   \<and> list_all safe_char (sanitize_filename x)
   \<and> no_underscore_run (sanitize_filename x)
   \<and> sanitize_filename (sanitize_filename x) = sanitize_filename x
   \<and> sanitize_filename ''Paschim Champaran'' = ''Paschim_Champaran''"
proof (intro conjI)
  show "sanitize_filename ''Paschim Champaran'' = ''Paschim_Champaran''"
    by (simp add: sanitize_filename_def replace_unsafe_def is_word_def is_alnum_def
        is_ascii_alnum_def)
  show "no_underscore_run (sanitize_filename x)"
    by (simp add: sanitize_filename_def collapse_no_run)
qed (rule sanitize_as_specified sanitize_safe sanitize_idem)+

theorem sanitize_filename_idempotent_witness:
  "sanitize_filename ''a b/__c.d-_ e'' = ''a_b_c.d-_e''
   \<and> sanitize_filename (sanitize_filename ''a b/__c.d-_ e'') = ''a_b_c.d-_e''"
  using sanitize_filename_idempotent [of "''a b/__c.d-_ e''"]
  by (simp add: sanitize_filename_def replace_unsafe_def is_word_def safe_char_def
      is_alnum_def is_ascii_alnum_def)

section \<open>The Identifier Extractor applies its patterns in order\<close>

lemma takeWhile_nonempty:
  "(takeWhile P xs \<noteq> []) = (case xs of [] \<Rightarrow> False | c # _ \<Rightarrow> P c)"
  by (cases xs) simp_all

lemma dropWhile_stop: "(case dropWhile P xs of [] \<Rightarrow> True | d # _ \<Rightarrow> \<not> P d)"
  by (induction xs) simp_all

lemma key_occurs_Nil: "\<not> key_occurs key []"
  by (simp add: key_occurs_def match_here_def)

lemma key_occurs_Cons: "key_occurs key (c # t) = (match_here key (c # t) \<or> key_occurs key t)"
  by (auto simp: key_occurs_def)

lemma match_here_append: "match_here key t \<Longrightarrow> match_here key (t @ u)"
  by (cases "drop (length key) t") (auto simp: match_here_def)

lemma key_occurs_short: "length t \<le> length key \<Longrightarrow> \<not> key_occurs key t"
  by (induction t) (auto simp: key_occurs_Nil key_occurs_Cons match_here_def)

lemma search_id_Cons:
  "search_id key (c # cs) =
     (if match_here key (c # cs)
      then Some (takeWhile is_id_char (drop (length key) (c # cs)))
      else search_id key cs)"
  by (simp add: Let_def match_here_def takeWhile_nonempty)

lemma search_id_None: "(search_id key s = None) = (\<not> key_occurs key s)"
proof (induction s)
  case Nil
  then show ?case by (simp add: key_occurs_Nil)
next
  case (Cons c cs)
  then show ?case
    by (simp add: search_id_Cons key_occurs_Cons del: search_id.simps(2))
qed

lemma search_id_Some:
  "search_id key s = Some g \<Longrightarrow> found_by key s g"
proof (induction s)
  case Nil
  then show ?case by simp
next
  case (Cons c cs)
  let ?rest = "drop (length key) (c # cs)"
  let ?run = "takeWhile is_id_char ?rest"
  show ?case
  proof (cases "match_here key (c # cs)")
    case True
    with Cons.prems have g: "g = ?run" by (simp add: search_id_Cons del: search_id.simps(2))
    from True have s: "c # cs = key @ ?rest"
      by (metis append_take_drop_id prefix_def append_eq_conv_conj match_here_def)
    have r: "?rest = ?run @ dropWhile is_id_char ?rest" by simp
    have all: "list_all is_id_char ?run"
      by (simp add: list_all_iff) (meson set_takeWhileD)
    have early: "\<not> key_occurs key ([] @ key)"
      by (simp add: key_occurs_short)
    have eq: "c # cs = [] @ key @ g @ dropWhile is_id_char ?rest"
      using s r g by simp
    have "\<exists>pre post. c # cs = pre @ key @ g @ post
            \<and> (case post of [] \<Rightarrow> True | c # _ \<Rightarrow> \<not> is_id_char c)
            \<and> \<not> key_occurs key (pre @ key)"
      using eq dropWhile_stop [of is_id_char ?rest] early by blast
    moreover have "g \<noteq> []" using True g by (simp add: match_here_def takeWhile_nonempty)
    moreover have "list_all is_id_char g" using all g by simp
    ultimately show ?thesis unfolding found_by_def by blast
  next
    case False
    with Cons.prems have "search_id key cs = Some g"
      by (simp add: search_id_Cons del: search_id.simps(2))
    from Cons.IH [OF this] obtain pre post where
      g: "g \<noteq> []" "list_all is_id_char g" and
      s: "cs = pre @ key @ g @ post" and
      post: "(case post of [] \<Rightarrow> True | c # _ \<Rightarrow> \<not> is_id_char c)" and
      early: "\<not> key_occurs key (pre @ key)"
      unfolding found_by_def by blast
    have "\<not> match_here key (c # pre @ key)"
      using False match_here_append [of key "c # pre @ key" "g @ post"] s by auto
    with early have "\<not> key_occurs key ((c # pre) @ key)"
      by (simp add: key_occurs_Cons)
    moreover have "c # cs = (c # pre) @ key @ g @ post" using s by simp
    ultimately show ?thesis unfolding found_by_def using g post by blast
  qed
qed

lemma strip_Nil: "(strip s = []) = list_all is_space s"
proof (cases "dropWhile is_space s")
  case Nil
  then have "list_all is_space s" by (simp add: list_all_iff)
  moreover have "strip s = []" unfolding strip_def Nil by simp
  ultimately show ?thesis by simp
next
  case (Cons d ds)
  then have d: "\<not> is_space d" using hd_dropWhile [of is_space s] by simp
  then have "\<not> list_all is_space (rev (d # ds))" by (simp add: list_all_iff)
  then have "strip s \<noteq> []" unfolding strip_def Cons by (simp add: list_all_iff)
  moreover have "d \<in> set s"
    using set_dropWhileD [of d is_space s] Cons by simp
  then have "\<not> list_all is_space s"
    using d by (auto simp: list_all_iff)
  ultimately show ?thesis by simp
qed

lemma key_occurs_hd: "key_occurs (k # ks) s \<Longrightarrow> k \<in> set s"
  by (induction s) (auto simp: key_occurs_Nil key_occurs_Cons match_here_def)

lemma blank_no_key:
  assumes "strip s = []" and "\<not> is_space k"
  shows "\<not> key_occurs (k # ks) s"
proof
  assume "key_occurs (k # ks) s"
  then have "k \<in> set s" by (rule key_occurs_hd)
  with assms show False by (auto simp: strip_Nil list_all_iff)
qed

lemma extract_file_id_eq:
  "extract_file_id s =
     (case search_id ''id='' s of Some g \<Rightarrow> Some g | None \<Rightarrow> search_id ''/d/'' s)"
proof (cases "s = [] \<or> strip s = []")
  case True
  then have "strip s = []" by (auto simp: strip_def)
  then have "search_id ''id='' s = None" "search_id ''/d/'' s = None"
    by (simp_all add: search_id_None blank_no_key is_space_def)
  with True show ?thesis by (simp add: extract_file_id_def)
next
  case False
  then show ?thesis by (simp add: extract_file_id_def split: option.splits)
qed

text \<open>
  C4. The Identifier Extractor applies the query-parameter pattern \<open>id=\<close> first: where
  it occurs, the result is the longest run of identifier characters after its leftmost
  occurrence. Only if it does not occur is the path-segment pattern \<open>/d/\<close> applied in
  the same way, and when neither occurs the result is not-found. The four examples of the
  specification evaluate as stated.
\<close>

theorem extract_file_id_ordered:
  "(key_occurs ''id='' s \<longrightarrow> (\<exists>g. extract_file_id s = Some g \<and> found_by ''id='' s g))
   \<and> (\<not> key_occurs ''id='' s \<and> key_occurs ''/d/'' s \<longrightarrow>
        (\<exists>g. extract_file_id s = Some g \<and> found_by ''/d/'' s g))
   \<and> (\<not> key_occurs ''id='' s \<and> \<not> key_occurs ''/d/'' s \<longrightarrow> extract_file_id s = None)
   \<and> extract_file_id ''https://host/open?id=ABC123'' = Some ''ABC123''
   \<and> extract_file_id ''https://host/file/d/XYZ_9-8/view'' = Some ''XYZ_9-8''
   \<and> extract_file_id [] = None
   \<and> extract_file_id ''unrecognized text'' = None"
proof (intro conjI impI)
  assume "key_occurs ''id='' s"
  then obtain g where g: "search_id ''id='' s = Some g"
    using search_id_None [of "''id=''" s] by auto
  with search_id_Some [OF g] show "\<exists>g. extract_file_id s = Some g \<and> found_by ''id='' s g"
    by (simp add: extract_file_id_eq)
next
  assume a: "\<not> key_occurs ''id='' s \<and> key_occurs ''/d/'' s"
  then have n: "search_id ''id='' s = None" by (simp add: search_id_None)
  from a obtain g where g: "search_id ''/d/'' s = Some g"
    using search_id_None [of "''/d/''" s] by auto
  with n search_id_Some [OF g] show "\<exists>g. extract_file_id s = Some g \<and> found_by ''/d/'' s g"
    by (simp add: extract_file_id_eq)
next
  assume "\<not> key_occurs ''id='' s \<and> \<not> key_occurs ''/d/'' s"
  then have "search_id ''id='' s = None" "search_id ''/d/'' s = None"
    by (simp_all add: search_id_None)
  then show "extract_file_id s = None"
    by (simp add: extract_file_id_eq)
next
  show "extract_file_id ''https://host/open?id=ABC123'' = Some ''ABC123''"
    by (simp add: extract_file_id_def strip_def is_space_def is_id_char_def is_ascii_alnum_def)
next
  show "extract_file_id ''https://host/file/d/XYZ_9-8/view'' = Some ''XYZ_9-8''"
    by (simp add: extract_file_id_def strip_def is_space_def is_id_char_def is_ascii_alnum_def)
next
  show "extract_file_id [] = None"
    by (simp add: extract_file_id_def)
next
  show "extract_file_id ''unrecognized text'' = None"
    by (simp add: extract_file_id_def strip_def is_space_def is_id_char_def is_ascii_alnum_def)
qed

theorem extract_file_id_ordered_witness:
  "key_occurs ''id='' ''/d/A?id=B'' \<and> extract_file_id ''/d/A?id=B'' = Some ''B''
   \<and> \<not> key_occurs ''id='' ''x/d/A-1/'' \<and> key_occurs ''/d/'' ''x/d/A-1/''
   \<and> extract_file_id ''x/d/A-1/'' = Some ''A-1''
   \<and> \<not> key_occurs ''/d/'' ''id/d//'' \<and> extract_file_id ''id/d//'' = None"
  using extract_file_id_ordered [of "''/d/A?id=B''"] extract_file_id_ordered [of "''x/d/A-1/''"]
    extract_file_id_ordered [of "''id/d//''"]
  by (simp add: key_occurs_def match_here_def extract_file_id_def strip_def is_space_def
      is_id_char_def is_ascii_alnum_def)

section \<open>The Fetch Executor: retries, empty files and exceptions\<close>

lemma emit_simps [simp]:
  "fs (emit e w) = fs w" "calls (emit e w) = calls w" "trace (emit e w) = trace w @ [e]"
  by (simp_all add: emit_def)

lemma remove_file_simps [simp]:
  "fs (remove_file p w) = (fs w)(p := None)" "calls (remove_file p w) = calls w"
  "trace (remove_file p w) = trace w @ [Remove p]"
  by (simp_all add: remove_file_def)

lemma invoked_simps [simp]:
  "fs (invoked cmd fs' w) = fs'" "calls (invoked cmd fs' w) = calls w + 1"
  "trace (invoked cmd fs' w) = trace w @ [Invoke cmd]"
  by (simp_all add: invoked_def)

lemma step_exception:
  assumes "tr (calls w) (gdown_cmd file_id output_path) (fs w) = (OtherException, fs')"
  shows "attempt_step tr file_id output_path max_retries attempt w =
           (Return Error,
            emit (Print (MsgError (basename output_path)))
              (invoked (gdown_cmd file_id output_path) fs' w))"
  by (simp add: attempt_step_def assms)

lemma step_timeout:
  assumes "tr (calls w) (gdown_cmd file_id output_path) (fs w) = (TimeoutExpired, fs')"
  shows "attempt_step tr file_id output_path max_retries attempt w =
           (if int attempt < max_retries - 1
            then (Continue,
                  emit (Sleep TimeoutDelay)
                    (emit (Print (MsgTimeoutRetry (basename output_path)))
                       (invoked (gdown_cmd file_id output_path) fs' w)))
            else (Return Error,
                  emit (Print (MsgTimeout (basename output_path)))
                    (invoked (gdown_cmd file_id output_path) fs' w)))"
  by (simp add: attempt_step_def assms)

lemma step_success:
  assumes "tr (calls w) (gdown_cmd file_id output_path) (fs w) = (Completed 0 stderr, fs')"
    and "fs' output_path = Some n" and "0 < n"
  shows "attempt_step tr file_id output_path max_retries attempt w =
           (Return Success,
            emit (Print (MsgOk (basename output_path)))
              (invoked (gdown_cmd file_id output_path) fs' w))"
  by (simp add: attempt_step_def assms)

lemma step_failed:
  assumes "tr (calls w) (gdown_cmd file_id output_path) (fs w) = (Completed returncode stderr, fs')"
    and "returncode \<noteq> 0 \<or> fs' output_path = None"
  shows "attempt_step tr file_id output_path max_retries attempt w =
           (if is_rate_limit stderr
            then (Continue,
                  emit (Sleep (Backoff attempt))
                    (emit (Print MsgRateLimit) (invoked (gdown_cmd file_id output_path) fs' w)))
            else if int attempt < max_retries - 1
            then (Continue,
                  emit (Sleep ShortDelay) (invoked (gdown_cmd file_id output_path) fs' w))
            else (Return Error,
                  emit (Print (MsgFailed max_retries (basename output_path)))
                    (invoked (gdown_cmd file_id output_path) fs' w)))"
  using assms(2) by (auto simp: attempt_step_def assms(1) Let_def)

lemma step_empty_file:
  assumes "tr (calls w) (gdown_cmd file_id output_path) (fs w) = (Completed 0 stderr, fs')"
    and "fs' output_path = Some 0"
  shows "attempt_step tr file_id output_path max_retries attempt w =
           (if is_rate_limit stderr
            then (Continue,
                  emit (Sleep (Backoff attempt))
                    (emit (Print MsgRateLimit)
                       (remove_file output_path (invoked (gdown_cmd file_id output_path) fs' w))))
            else if int attempt < max_retries - 1
            then (Continue,
                  emit (Sleep ShortDelay)
                    (remove_file output_path (invoked (gdown_cmd file_id output_path) fs' w)))
            else (Return Error,
                  emit (Print (MsgFailed max_retries (basename output_path)))
                    (remove_file output_path (invoked (gdown_cmd file_id output_path) fs' w))))"
  by (simp add: attempt_step_def assms Let_def)

lemma attempt_step_calls:
  "calls (snd (attempt_step tr file_id output_path max_retries attempt w)) = calls w + 1"
  by (cases "tr (calls w) (gdown_cmd file_id output_path) (fs w)")
     (simp add: attempt_step_def Let_def split: response.splits)


lemma contains_lower: "contains sub s \<Longrightarrow> contains (lower sub) (lower s)"
proof (induction s)
  case Nil
  then show ?case by (simp add: lower_def)
next
  case (Cons c cs)
  then show ?case
    using map_mono_prefix [of sub "c # cs" lower_char] by (auto simp: lower_def)
qed

lemma rate_limit_term_is_rate_limit: "rate_limit_term d \<Longrightarrow> is_rate_limit d"
proof -
  have l: "lower ''quota'' = ''quota''" "lower ''limit'' = ''limit''"
    "lower ''too many'' = ''too many''"
    by (simp_all add: lower_def lower_char_def)
  assume "rate_limit_term d"
  then have "contains ''quota'' (lower d) \<or> contains ''limit'' (lower d)
      \<or> contains ''too many'' (lower d)"
    using contains_lower [of "''quota''" d] contains_lower [of "''limit''" d]
      contains_lower [of "''too many''" d]
    unfolding rate_limit_term_def l by blast
  moreover have "lower [] = []" by (simp add: lower_def)
  ultimately show ?thesis
    by (cases "d = []") (simp_all add: is_rate_limit_def)
qed

lemma attempt_loop_rate_limited:
  assumes "\<forall>n f. \<exists>rc err f'. tr n (gdown_cmd file_id output_path) f = (Completed rc err, f')
             \<and> rc \<noteq> 0 \<and> rate_limit_term err"
  shows "fst (attempt_loop tr file_id output_path max_retries attempts w) = Error
     \<and> calls (snd (attempt_loop tr file_id output_path max_retries attempts w))
         = calls w + length attempts"
proof (induction attempts arbitrary: w)
  case Nil
  then show ?case by simp
next
  case (Cons a as)
  from assms obtain rc err f' where
    t: "tr (calls w) (gdown_cmd file_id output_path) (fs w) = (Completed rc err, f')"
    and rc: "rc \<noteq> 0" and err: "rate_limit_term err"
    by blast
  have "attempt_step tr file_id output_path max_retries a w =
          (Continue,
           emit (Sleep (Backoff a))
             (emit (Print MsgRateLimit) (invoked (gdown_cmd file_id output_path) f' w)))"
    using step_failed [where tr = tr and file_id = file_id and output_path = output_path and w = w, OF t] rc rate_limit_term_is_rate_limit [OF err] by simp
  then show ?case using Cons.IH by simp
qed

text \<open>
  C1. Let the destination not exist. If every invocation of the transport fails (a
  non-zero status) with a diagnostic containing one of the rate-limit terms, the Fetch
  Executor invokes the transport exactly \<open>max_retries\<close> times and returns Error. If
  the first invocation fails with a diagnostic that is not a rate-limit one and the
  second succeeds and leaves a non-empty file, it returns Success after exactly two
  invocations.
\<close>

theorem retry_policy:
  assumes "fs w output_path = None"
  shows "(0 \<le> max_retries \<and>
          (\<forall>n f. \<exists>rc err f'. tr n (gdown_cmd file_id output_path) f = (Completed rc err, f')
              \<and> rc \<noteq> 0 \<and> rate_limit_term err) \<longrightarrow>
            fst (download_file tr file_id output_path max_retries w) = Error
            \<and> calls (snd (download_file tr file_id output_path max_retries w))
                = calls w + nat max_retries)
       \<and> (2 \<le> max_retries
            \<and> tr (calls w) (gdown_cmd file_id output_path) (fs w) = (Completed rc err, fs')
            \<and> rc \<noteq> 0 \<and> \<not> is_rate_limit err
            \<and> tr (calls w + 1) (gdown_cmd file_id output_path) fs' = (Completed 0 err', fs'')
            \<and> fs'' output_path = Some sz \<and> 0 < sz \<longrightarrow>
            fst (download_file tr file_id output_path max_retries w) = Success
            \<and> calls (snd (download_file tr file_id output_path max_retries w)) = calls w + 2)"
proof (intro conjI impI)
  assume a: "0 \<le> max_retries \<and>
          (\<forall>n f. \<exists>rc err f'. tr n (gdown_cmd file_id output_path) f = (Completed rc err, f')
              \<and> rc \<noteq> 0 \<and> rate_limit_term err)"
  then have r: "\<forall>n f. \<exists>rc err f'. tr n (gdown_cmd file_id output_path) f = (Completed rc err, f')
              \<and> rc \<noteq> 0 \<and> rate_limit_term err" by blast
  show "fst (download_file tr file_id output_path max_retries w) = Error"
    using attempt_loop_rate_limited [where tr = tr and file_id = file_id and output_path = output_path, OF r] assms by (simp add: download_file_def)
  show "calls (snd (download_file tr file_id output_path max_retries w))
                = calls w + nat max_retries"
    using attempt_loop_rate_limited [where tr = tr and file_id = file_id and output_path = output_path, OF r] assms by (simp add: download_file_def)
next
  assume a: "2 \<le> max_retries
            \<and> tr (calls w) (gdown_cmd file_id output_path) (fs w) = (Completed rc err, fs')
            \<and> rc \<noteq> 0 \<and> \<not> is_rate_limit err
            \<and> tr (calls w + 1) (gdown_cmd file_id output_path) fs' = (Completed 0 err', fs'')
            \<and> fs'' output_path = Some sz \<and> 0 < sz"
  let ?w0 = "emit (Sleep Jitter) w"
  let ?w1 = "emit (Sleep ShortDelay) (invoked (gdown_cmd file_id output_path) fs' ?w0)"
  let ?w2 = "emit (Print (MsgOk (basename output_path)))
               (invoked (gdown_cmd file_id output_path) fs'' ?w1)"
  from a have up: "[0..<nat max_retries] = 0 # 1 # [Suc (Suc 0)..<nat max_retries]"
    by (simp add: upt_conv_Cons)
  have t1: "tr (calls ?w0) (gdown_cmd file_id output_path) (fs ?w0) = (Completed rc err, fs')"
    using a by simp
  have s1: "attempt_step tr file_id output_path max_retries 0 ?w0 = (Continue, ?w1)"
    using step_failed [where tr = tr and file_id = file_id and output_path = output_path and w = ?w0, OF t1] a by simp
  have t2: "tr (calls ?w1) (gdown_cmd file_id output_path) (fs ?w1) = (Completed 0 err', fs'')"
    using a by simp
  have s2: "attempt_step tr file_id output_path max_retries 1 ?w1 = (Return Success, ?w2)"
    using step_success [where tr = tr and file_id = file_id and output_path = output_path and w = ?w1, OF t2] a by simp
  have d: "download_file tr file_id output_path max_retries w = (Success, ?w2)"
    using assms s1 s2 by (simp add: download_file_def up)
  show "fst (download_file tr file_id output_path max_retries w) = Success"
    by (simp add: d)
  show "calls (snd (download_file tr file_id output_path max_retries w)) = calls w + 2"
    by (simp add: d)
qed


theorem retry_policy_witness:
  "fst (download_file (\<lambda>n cmd f. (Completed 1 ''quota exceeded'', f)) ''ID'' ''out.jpg'' 3
          \<lparr>fs = Map.empty, calls = 0, trace = []\<rparr>) = Error
   \<and> calls (snd (download_file (\<lambda>n cmd f. (Completed 1 ''quota exceeded'', f)) ''ID'' ''out.jpg'' 3
          \<lparr>fs = Map.empty, calls = 0, trace = []\<rparr>)) = 3
   \<and> fst (download_file
             (\<lambda>n cmd f. if n = 0 then (Completed 1 ''network error'', f)
                else (Completed 0 [], f(''out.jpg'' \<mapsto> 10)))
             ''ID'' ''out.jpg'' 3 \<lparr>fs = Map.empty, calls = 0, trace = []\<rparr>) = Success
   \<and> calls (snd (download_file
             (\<lambda>n cmd f. if n = 0 then (Completed 1 ''network error'', f)
                else (Completed 0 [], f(''out.jpg'' \<mapsto> 10)))
             ''ID'' ''out.jpg'' 3 \<lparr>fs = Map.empty, calls = 0, trace = []\<rparr>)) = 2"
proof -
  let ?w = "\<lparr>fs = Map.empty, calls = 0, trace = []\<rparr>"
  have e: "fs ?w ''out.jpg'' = None" by simp
  have q: "rate_limit_term ''quota exceeded''"
    by (simp add: rate_limit_term_def)
  have n: "\<not> is_rate_limit ''network error''"
    by (simp add: is_rate_limit_def lower_def lower_char_def)
  show ?thesis
    using retry_policy [where w = ?w and output_path = "''out.jpg''" and max_retries = 3
        and file_id = "''ID''" and tr = "\<lambda>n cmd f. (Completed 1 ''quota exceeded'', f)", OF e]
      retry_policy [where w = ?w and output_path = "''out.jpg''" and max_retries = 3
        and file_id = "''ID''" and rc = 1 and err = "''network error''" and fs' = Map.empty
        and err' = "[]" and fs'' = "[''out.jpg'' \<mapsto> 10]" and sz = 10
        and tr = "\<lambda>n cmd f. if n = 0 then (Completed 1 ''network error'', f)
                else (Completed 0 [], f(''out.jpg'' \<mapsto> 10))", OF e]
      q n
    by simp
qed

text \<open>
  C5. If an invocation completes with status 0 and leaves a destination file of size
  zero, the attempt does not return Success: the file is deleted, so that it no longer
  exists, and the attempt goes on into the retry logic. It continues with the next
  attempt when the diagnostic is a rate-limit one or attempts remain, and returns Error
  only when this was the last attempt.
\<close>

theorem zero_byte_file_is_deleted_and_retried:
  assumes "tr (calls w) (gdown_cmd file_id output_path) (fs w) = (Completed 0 stderr, fs')"
    and "fs' output_path = Some 0"
  shows "fst (attempt_step tr file_id output_path max_retries attempt w) \<noteq> Return Success
     \<and> fst (attempt_step tr file_id output_path max_retries attempt w) =
         (if is_rate_limit stderr \<or> int attempt < max_retries - 1 then Continue
          else Return Error)
     \<and> fs (snd (attempt_step tr file_id output_path max_retries attempt w))
         = fs'(output_path := None)
     \<and> fs (snd (attempt_step tr file_id output_path max_retries attempt w)) output_path = None
     \<and> Remove output_path
         \<in> set (trace (snd (attempt_step tr file_id output_path max_retries attempt w)))
     \<and> attempt_loop tr file_id output_path max_retries (attempt # rest) w =
         (if is_rate_limit stderr \<or> int attempt < max_retries - 1
          then attempt_loop tr file_id output_path max_retries rest
                 (snd (attempt_step tr file_id output_path max_retries attempt w))
          else (Error, snd (attempt_step tr file_id output_path max_retries attempt w)))"
  using step_empty_file [where tr = tr and w = w and file_id = file_id
      and output_path = output_path, OF assms, of max_retries attempt]
  by simp

theorem zero_byte_file_is_deleted_and_retried_witness:
  "fst (attempt_step (\<lambda>n cmd f. (Completed 0 [], f(''out.jpg'' \<mapsto> 0))) ''ID'' ''out.jpg'' 3 0
          \<lparr>fs = Map.empty, calls = 0, trace = []\<rparr>) = Continue
   \<and> fs (snd (attempt_step (\<lambda>n cmd f. (Completed 0 [], f(''out.jpg'' \<mapsto> 0))) ''ID'' ''out.jpg'' 3 0
          \<lparr>fs = Map.empty, calls = 0, trace = []\<rparr>)) ''out.jpg'' = None"
  using zero_byte_file_is_deleted_and_retried [where w = "\<lparr>fs = Map.empty, calls = 0, trace = []\<rparr>"
      and output_path = "''out.jpg''" and max_retries = 3 and attempt = 0
      and file_id = "''ID''" and stderr = "[]" and fs' = "[''out.jpg'' \<mapsto> 0]"
      and tr = "\<lambda>n cmd f. (Completed 0 [], f(''out.jpg'' \<mapsto> 0))"]
  by simp

text \<open>
  C6. If an invocation raises an exception other than a timeout, the loop returns Error
  on that attempt, whatever attempts remain, and invokes the transport no more: the
  invocation count grows by exactly one. An attempt continues with the next one only
  after a timeout or after an invocation that completed.
\<close>

theorem other_exception_fails_fast:
  "(tr (calls w) (gdown_cmd file_id output_path) (fs w) = (OtherException, fs') \<longrightarrow>
      attempt_loop tr file_id output_path max_retries (attempt # rest) w =
        (Error,
         emit (Print (MsgError (basename output_path)))
           (invoked (gdown_cmd file_id output_path) fs' w))
      \<and> calls (snd (attempt_loop tr file_id output_path max_retries (attempt # rest) w))
          = calls w + 1)
   \<and> (fst (attempt_step tr file_id output_path max_retries attempt w) = Continue \<longrightarrow>
        fst (tr (calls w) (gdown_cmd file_id output_path) (fs w)) = TimeoutExpired
        \<or> (\<exists>returncode stderr.
              fst (tr (calls w) (gdown_cmd file_id output_path) (fs w))
                = Completed returncode stderr))"
proof (intro conjI impI)
  assume t: "tr (calls w) (gdown_cmd file_id output_path) (fs w) = (OtherException, fs')"
  show "attempt_loop tr file_id output_path max_retries (attempt # rest) w =
        (Error,
         emit (Print (MsgError (basename output_path)))
           (invoked (gdown_cmd file_id output_path) fs' w))"
    by (simp add: step_exception [where tr = tr and w = w, OF t])
  then show "calls (snd (attempt_loop tr file_id output_path max_retries (attempt # rest) w))
          = calls w + 1"
    by simp
next
  assume c: "fst (attempt_step tr file_id output_path max_retries attempt w) = Continue"
  obtain result fs' where
    t: "tr (calls w) (gdown_cmd file_id output_path) (fs w) = (result, fs')"
    by (cases "tr (calls w) (gdown_cmd file_id output_path) (fs w)")
  show "fst (tr (calls w) (gdown_cmd file_id output_path) (fs w)) = TimeoutExpired
        \<or> (\<exists>returncode stderr.
              fst (tr (calls w) (gdown_cmd file_id output_path) (fs w))
                = Completed returncode stderr)"
  proof (cases result)
    case OtherException
    with c step_exception [where tr = tr and w = w, OF t [unfolded OtherException]]
    show ?thesis by simp
  qed (simp_all add: t)
qed

theorem other_exception_fails_fast_witness:
  "fst (attempt_loop (\<lambda>n cmd f. (OtherException, f)) ''ID'' ''out.jpg'' 3 [0, 1, 2]
          \<lparr>fs = Map.empty, calls = 0, trace = []\<rparr>) = Error
   \<and> calls (snd (attempt_loop (\<lambda>n cmd f. (OtherException, f)) ''ID'' ''out.jpg'' 3 [0, 1, 2]
          \<lparr>fs = Map.empty, calls = 0, trace = []\<rparr>)) = 1"
  using other_exception_fails_fast [where w = "\<lparr>fs = Map.empty, calls = 0, trace = []\<rparr>"
      and output_path = "''out.jpg''" and max_retries = 3 and attempt = 0 and rest = "[1, 2]"
      and file_id = "''ID''" and fs' = Map.empty and tr = "\<lambda>n cmd f. (OtherException, f)"]
  by simp

section \<open>The Batch Aggregator counts every task, and existing files are skipped\<close>

lemma count_results_acc:
  "foldl count_result (d, s, e) results =
     (d + int (length (filter (\<lambda>r. r = Success) results)),
      s + int (length (filter (\<lambda>r. r = Skipped) results)),
      e + int (length (filter (\<lambda>r. r = Error) results)))"
proof (induction results arbitrary: d s e)
  case Nil
  then show ?case by simp
next
  case (Cons r rs)
  then show ?case by (cases r) simp_all
qed

lemma count_results_filter:
  "count_results results =
     (int (length (filter (\<lambda>r. r = Success) results)),
      int (length (filter (\<lambda>r. r = Skipped) results)),
      int (length (filter (\<lambda>r. r = Error) results)))"
  by (simp add: count_results_def count_results_acc)

lemma outcome_partition:
  "length (filter (\<lambda>r. r = Success) results) + length (filter (\<lambda>r. r = Skipped) results)
     + length (filter (\<lambda>r. r = Error) results) = length results"
proof (induction results)
  case Nil
  then show ?case by simp
next
  case (Cons r rs)
  then show ?case by (cases r) simp_all
qed

lemma count_results_total:
  "(case count_results results of (d, s, e) \<Rightarrow> d + s + e) = int (length results)"
  using outcome_partition [of results] by (simp add: count_results_filter)

lemma count_results_mset:
  assumes "mset results = mset results'"
  shows "count_results results = count_results results'"
proof -
  have "length (filter P results) = length (filter P results')" for P
    using assms by (metis mset_filter size_mset)
  then show ?thesis by (simp add: count_results_filter)
qed

lemma run_tasks_Cons:
  "run_tasks tr (task # tasks) w =
     (fst (download_task tr task w) # fst (run_tasks tr tasks (snd (download_task tr task w))),
      snd (run_tasks tr tasks (snd (download_task tr task w))))"
  by (simp add: split_beta)

lemma length_run_tasks: "length (fst (run_tasks tr tasks w)) = length tasks"
  by (induction tasks arbitrary: w) (simp_all add: run_tasks_Cons del: run_tasks.simps(2))
















lemmas char_class_defs =
  is_space_def is_id_char_def is_ascii_alnum_def is_alnum_def is_word_def replace_unsafe_def

lemma process_csv_file_Inr:
  assumes "build_tasks csv_path output_dir rows = Inr batch"
  shows "process_csv_file tr csv_path rows output_dir w =
           Inr (count_results (fst (run_tasks tr batch w)), snd (run_tasks tr batch w))"
  by (simp add: process_csv_file_def assms split_beta)

lemma process_csv_file_Inl:
  assumes "build_tasks csv_path output_dir rows = Inl e"
  shows "process_csv_file tr csv_path rows output_dir w = Inl e"
  by (simp add: process_csv_file_def assms)

lemma process_csv_file_built:
  assumes "process_csv_file tr csv_path rows output_dir w = Inr (sm, w')"
  shows "\<exists>batch. build_tasks csv_path output_dir rows = Inr batch"
  using assms by (cases "build_tasks csv_path output_dir rows") (simp_all add: process_csv_file_def)

lemma process_csv_file_total:
  assumes "build_tasks csv_path output_dir rows = Inr batch"
  shows "\<exists>d s e w'. process_csv_file tr csv_path rows output_dir w = Inr ((d, s, e), w')
           \<and> d + s + e = int (length batch)"
proof -
  obtain d s e where c: "count_results (fst (run_tasks tr batch w)) = (d, s, e)"
    by (cases "count_results (fst (run_tasks tr batch w))") auto
  have "d + s + e = int (length batch)"
    using count_results_total [of "fst (run_tasks tr batch w)"] length_run_tasks [of tr batch w]
    by (simp add: c)
  then show ?thesis
    by (simp add: process_csv_file_Inr [OF assms] c)
qed

lemma main_loop_total:
  assumes "map (\<lambda>(p, rows). build_tasks p ''photos'' rows) csv_files = map Inr batches"
  shows "\<exists>d' s' e' w'. main_loop tr csv_files (d, s, e) w = Inr ((d', s', e'), w')
           \<and> d' + s' + e' = d + s + e + int (sum_list (map length batches))"
  using assms
proof (induction csv_files arbitrary: batches d s e w)
  case Nil
  then show ?case by simp
next
  case (Cons b bs)
  obtain p rows where b: "b = (p, rows)" by (cases b)
  from Cons.prems obtain batch rest where
    batches: "batches = batch # rest" and
    built: "build_tasks p ''photos'' rows = Inr batch" and
    more: "map (\<lambda>(p, rows). build_tasks p ''photos'' rows) bs = map Inr rest"
    by (cases batches) (auto simp: b)
  from process_csv_file_total [OF built, of tr w] obtain d1 s1 e1 w1 where
    r: "process_csv_file tr p rows ''photos'' w = Inr ((d1, s1, e1), w1)" and
    n: "d1 + s1 + e1 = int (length batch)"
    by blast
  from Cons.IH [OF more, of "d + d1" "s + s1" "e + e1" w1] obtain d' s' e' w' where
    "main_loop tr bs (d + d1, s + s1, e + e1) w1 = Inr ((d', s', e'), w')"
    "d' + s' + e' = (d + d1) + (s + s1) + (e + e1) + int (sum_list (map length rest))"
    by blast
  with n show ?case
    by (simp add: b r batches)
qed

lemma main_loop_built:
  assumes "main_loop tr csv_files totals w = Inr (sm, w')"
  shows "\<exists>batches. map (\<lambda>(p, rows). build_tasks p ''photos'' rows) csv_files = map Inr batches"
  using assms
proof (induction csv_files arbitrary: totals w)
  case Nil
  then show ?case by simp
next
  case (Cons b bs)
  obtain p rows where b: "b = (p, rows)" by (cases b)
  obtain d s e where t: "totals = (d, s, e)" by (cases totals)
  from Cons.prems obtain d1 s1 e1 w1 where
    r: "process_csv_file tr p rows ''photos'' w = Inr ((d1, s1, e1), w1)"
    by (cases "process_csv_file tr p rows ''photos'' w") (auto simp: b t)
  from process_csv_file_built [OF r] obtain batch where
    built: "build_tasks p ''photos'' rows = Inr batch" by blast
  from Cons.prems have "main_loop tr bs (d + d1, s + s1, e + e1) w1 = Inr (sm, w')"
    by (simp add: b t r)
  from Cons.IH [OF this] obtain rest where
    "map (\<lambda>(p, rows). build_tasks p ''photos'' rows) bs = map Inr rest" by blast
  with built have
    "map (\<lambda>(p, rows). build_tasks p ''photos'' rows) (b # bs) = map Inr (batch # rest)"
    by (simp add: b)
  then show ?case by blast
qed

lemma one_task_batch:
  "build_tasks ''data/D-photo-links.csv'' ''photos''
     [[''Photo of Polling Station Building (PSB)'' \<mapsto> Some ''id=A'']]
   = Inr [(''A'', ''photos/D-Unknown-PS000--PSB-A.jpg'')]"
  by (simp add: build_tasks_def district_of_def basename_def row_tasks_def column_tasks_def
      photo_columns_def row_get_def constituency_of_def match_before_bracket_def strip_def
      zfill_def numeral_3_eq_3 extract_file_id_def output_filename_def path_join_def
      sanitize_filename_def char_class_defs)

text \<open>
  C7. The three counts of a summary add up to the number of outcomes folded, and the pool
  yields one outcome for each task. So whenever the tasks of a batch are built, the batch
  returns a summary that adds up to the number of its tasks, and the grand total of
  \<open>main\<close> adds up to the number of tasks of all batches; and every summary that a batch
  or \<open>main\<close> returns is of this kind. The counts do not depend on the order in which the
  outcomes arrive.
\<close>

theorem summary_counts_every_task:
  "(case count_results results of (d, s, e) \<Rightarrow> d + s + e) = int (length results)
   \<and> length (fst (run_tasks tr tasks w)) = length tasks
   \<and> (build_tasks csv_path output_dir rows = Inr batch \<longrightarrow>
        (\<exists>d s e w'. process_csv_file tr csv_path rows output_dir w = Inr ((d, s, e), w')
           \<and> d + s + e = int (length batch)))
   \<and> (process_csv_file tr csv_path rows output_dir w = Inr ((downloaded, skipped, errors), w1)
        \<longrightarrow> (\<exists>batch. build_tasks csv_path output_dir rows = Inr batch
               \<and> downloaded + skipped + errors = int (length batch)))
   \<and> (map (\<lambda>(p, rows). build_tasks p ''photos'' rows) csv_files = map Inr batches \<longrightarrow>
        (\<exists>d s e w'. main tr csv_files w = Inr ((d, s, e), w')
           \<and> d + s + e = int (sum_list (map length batches))))
   \<and> (main tr csv_files w = Inr ((total_downloaded, total_skipped, total_errors), w2) \<longrightarrow>
        (\<exists>batches. map (\<lambda>(p, rows). build_tasks p ''photos'' rows) csv_files = map Inr batches
           \<and> total_downloaded + total_skipped + total_errors
               = int (sum_list (map length batches))))
   \<and> (mset results = mset results' \<longrightarrow> count_results results = count_results results')"
proof (intro conjI impI)
  show "(case count_results results of (d, s, e) \<Rightarrow> d + s + e) = int (length results)"
    by (rule count_results_total)
  show "length (fst (run_tasks tr tasks w)) = length tasks"
    by (rule length_run_tasks)
next
  assume "build_tasks csv_path output_dir rows = Inr batch"
  then show "\<exists>d s e w'. process_csv_file tr csv_path rows output_dir w = Inr ((d, s, e), w')
           \<and> d + s + e = int (length batch)"
    by (rule process_csv_file_total)
next
  assume r: "process_csv_file tr csv_path rows output_dir w
               = Inr ((downloaded, skipped, errors), w1)"
  from process_csv_file_built [OF r] obtain batch where
    b: "build_tasks csv_path output_dir rows = Inr batch" by blast
  from process_csv_file_total [OF b, of tr w] r
  have "downloaded + skipped + errors = int (length batch)" by auto
  with b show "\<exists>batch. build_tasks csv_path output_dir rows = Inr batch
               \<and> downloaded + skipped + errors = int (length batch)"
    by blast
next
  assume "map (\<lambda>(p, rows). build_tasks p ''photos'' rows) csv_files = map Inr batches"
  from main_loop_total [OF this, of tr 0 0 0 w]
  show "\<exists>d s e w'. main tr csv_files w = Inr ((d, s, e), w')
           \<and> d + s + e = int (sum_list (map length batches))"
    by (simp add: main_def)
next
  assume r: "main tr csv_files w = Inr ((total_downloaded, total_skipped, total_errors), w2)"
  then have "main_loop tr csv_files (0, 0, 0) w
               = Inr ((total_downloaded, total_skipped, total_errors), w2)"
    by (simp add: main_def)
  from main_loop_built [OF this] obtain batches where
    b: "map (\<lambda>(p, rows). build_tasks p ''photos'' rows) csv_files = map Inr batches"
    by blast
  from main_loop_total [OF b, of tr 0 0 0 w] r
  have "total_downloaded + total_skipped + total_errors = int (sum_list (map length batches))"
    by (auto simp: main_def)
  with b show "\<exists>batches. map (\<lambda>(p, rows). build_tasks p ''photos'' rows) csv_files = map Inr batches
           \<and> total_downloaded + total_skipped + total_errors
               = int (sum_list (map length batches))"
    by blast
next
  assume "mset results = mset results'"
  then show "count_results results = count_results results'"
    by (rule count_results_mset)
qed

theorem summary_counts_every_task_witness:
  "mset [Success, Error, Skipped, Error] = mset [Error, Error, Skipped, Success]
   \<and> count_results [Success, Error, Skipped, Error] = (1, 1, 2)
   \<and> count_results [Error, Error, Skipped, Success] = (1, 1, 2)
   \<and> build_tasks ''data/D-photo-links.csv'' ''photos''
         [[''Photo of Polling Station Building (PSB)'' \<mapsto> Some ''id=A'']]
       = Inr [(''A'', ''photos/D-Unknown-PS000--PSB-A.jpg'')]
   \<and> (\<exists>d s e w'.
         process_csv_file (\<lambda>n cmd f. (TimeoutExpired, f)) ''data/D-photo-links.csv''
           [[''Photo of Polling Station Building (PSB)'' \<mapsto> Some ''id=A'']] ''photos''
           \<lparr>fs = Map.empty, calls = 0, trace = []\<rparr> = Inr ((d, s, e), w')
         \<and> d + s + e = 1)"
  using summary_counts_every_task [where results = "[Success, Error, Skipped, Error]"
      and results' = "[Error, Error, Skipped, Success]"
      and csv_path = "''data/D-photo-links.csv''" and output_dir = "''photos''"
      and rows = "[[''Photo of Polling Station Building (PSB)'' \<mapsto> Some ''id=A'']]"
      and batch = "[(''A'', ''photos/D-Unknown-PS000--PSB-A.jpg'')]"
      and tr = "\<lambda>n cmd f. (TimeoutExpired, f)"
      and w = "\<lparr>fs = Map.empty, calls = 0, trace = []\<rparr>"]
    one_task_batch
  by (simp add: count_results_def)




section \<open>The Task Builder names the destination files\<close>

lemma extract_file_id_nonempty: "extract_file_id s = Some g \<Longrightarrow> g \<noteq> []"
proof -
  assume a: "extract_file_id s = Some g"
  then have "search_id ''id='' s = Some g \<or> search_id ''/d/'' s = Some g"
    by (auto simp: extract_file_id_eq split: option.splits)
  then show ?thesis
    using search_id_Some [of "''id=''" s g] search_id_Some [of "''/d/''" s g]
    by (auto simp: found_by_def)
qed

lemma constituency_of_eq:
  "constituency_of composite =
     (if composite = [] \<or> hd composite = CHR ''['' then ''Unknown''
      else sub_region_label composite)"
proof (cases composite)
  case Nil
  then show ?thesis
    by (simp add: constituency_of_def match_before_bracket_def sanitize_filename_def
        char_class_defs)
next
  case (Cons c cs)
  then show ?thesis
    by (simp add: constituency_of_def match_before_bracket_def sub_region_label_def)
       (simp add: sanitize_filename_def char_class_defs)
qed

lemma column_tasks_eq:
  "column_tasks (sanitize_filename batch_label) (constituency_of composite)
       (zfill 3 (strip station)) (sanitize_filename (strip station_type)) output_dir r col =
     photo_tasks batch_label composite station station_type output_dir r col"
proof (cases "row_get r (fst col)")
  case None
  then show ?thesis by (simp add: column_tasks_def photo_tasks_def)
next
  case (Some url)
  show ?thesis
  proof (cases "extract_file_id url")
    case None
    with Some show ?thesis by (simp add: column_tasks_def photo_tasks_def)
  next
    case g: (Some g)
    then have "g \<noteq> []" by (rule extract_file_id_nonempty)
    moreover from g have "\<not> (url = [] \<or> strip url = [])"
      by (auto simp: extract_file_id_def)
    ultimately show ?thesis
      using Some g
      by (simp add: column_tasks_def photo_tasks_def output_filename_def built_filename_def
          constituency_of_eq)
  qed
qed

lemma row_tasks_text:
  assumes "row_get r ''Polling Station No.'' = Some station"
    and "row_get r ''Polling Station Type'' = Some station_type"
    and "row_get r ''AC No. & AC Name'' = Some composite"
  shows "row_tasks batch_label output_dir r =
           Inr (photo_tasks batch_label composite station station_type output_dir r
                  (''Photo of Polling Station Building (PSB)'', ''PSB'')
                @ photo_tasks batch_label composite station station_type output_dir r
                    (''Photo of Polling Station Premises with PS Building (PSP)'', ''PSP''))"
  by (simp add: row_tasks_def assms photo_columns_def column_tasks_eq)

lemma row_tasks_no_station:
  "row_get r ''Polling Station No.'' = None \<Longrightarrow> row_tasks batch_label output_dir r = Inl AttributeError"
  by (simp add: row_tasks_def)

lemma row_tasks_no_type:
  "row_get r ''Polling Station No.'' = Some station \<Longrightarrow>
   row_get r ''Polling Station Type'' = None \<Longrightarrow>
     row_tasks batch_label output_dir r = Inl AttributeError"
  by (simp add: row_tasks_def)

lemma row_tasks_no_composite:
  "row_get r ''Polling Station No.'' = Some station \<Longrightarrow>
   row_get r ''Polling Station Type'' = Some station_type \<Longrightarrow>
   row_get r ''AC No. & AC Name'' = None \<Longrightarrow>
     row_tasks batch_label output_dir r = Inl TypeError"
  by (simp add: row_tasks_def)

lemma ex_district:
  "district_of ''data/1-Paschim Champaran-photo-links.csv'' = ''1-Paschim Champaran''"
  by (simp add: district_of_def basename_def)

lemma ex_row:
  "row_tasks ''1-Paschim Champaran'' ''photos''
     [''AC No. & AC Name'' \<mapsto> Some ''4-Bagaha [1-Paschim Champaran]'',
      ''Polling Station No.'' \<mapsto> Some ''7'',
      ''Polling Station Type'' \<mapsto> Some ''Auxiliary'',
      ''Photo of Polling Station Building (PSB)'' \<mapsto> Some ''https://host/open?id=ABC123'']
   = Inr [(''ABC123'',
           ''photos/1-Paschim_Champaran-4-Bagaha-PS007-Auxiliary-PSB-ABC123.jpg'')]"
  by (simp add: row_tasks_def column_tasks_def photo_columns_def row_get_def
      constituency_of_def match_before_bracket_def strip_def zfill_def numeral_2_eq_2
      extract_file_id_def output_filename_def path_join_def sanitize_filename_def
      char_class_defs)

text \<open>
  C3 as amended. For every row whose station number, station type and composite cells are
  text (a column that the header lacks counts as the empty text), the Task Builder emits,
  for each of the two photo fields in their order whose cell holds an identifier, that
  identifier with the path of the filename made of the sanitized batch label, the
  sub-region label (the text before the first bracket of the composite field, trimmed
  and sanitized, or \<open>Unknown\<close> when that field is empty or starts with a bracket),
  \<open>PS\<close> and the station number trimmed and zero-padded to three characters, the station
  type trimmed and then sanitized, the photo-role code and the identifier, joined by
  hyphens, with the extension \<open>.jpg\<close>. The example row of the specification yields the
  filename the specification gives.
\<close>

theorem filename_as_built:
  "(row_get r ''Polling Station No.'' = Some station
      \<and> row_get r ''Polling Station Type'' = Some station_type
      \<and> row_get r ''AC No. & AC Name'' = Some composite \<longrightarrow>
    row_tasks batch_label output_dir r =
      Inr (photo_tasks batch_label composite station station_type output_dir r
             (''Photo of Polling Station Building (PSB)'', ''PSB'')
           @ photo_tasks batch_label composite station station_type output_dir r
               (''Photo of Polling Station Premises with PS Building (PSP)'', ''PSP'')))
   \<and> district_of ''data/1-Paschim Champaran-photo-links.csv'' = ''1-Paschim Champaran''
   \<and> row_tasks ''1-Paschim Champaran'' ''photos''
         [''AC No. & AC Name'' \<mapsto> Some ''4-Bagaha [1-Paschim Champaran]'',
          ''Polling Station No.'' \<mapsto> Some ''7'',
          ''Polling Station Type'' \<mapsto> Some ''Auxiliary'',
          ''Photo of Polling Station Building (PSB)'' \<mapsto> Some ''https://host/open?id=ABC123'']
       = Inr [(''ABC123'',
               ''photos/1-Paschim_Champaran-4-Bagaha-PS007-Auxiliary-PSB-ABC123.jpg'')]"
proof (intro conjI impI)
  assume "row_get r ''Polling Station No.'' = Some station
      \<and> row_get r ''Polling Station Type'' = Some station_type
      \<and> row_get r ''AC No. & AC Name'' = Some composite"
  then show "row_tasks batch_label output_dir r =
      Inr (photo_tasks batch_label composite station station_type output_dir r
             (''Photo of Polling Station Building (PSB)'', ''PSB'')
           @ photo_tasks batch_label composite station station_type output_dir r
               (''Photo of Polling Station Premises with PS Building (PSP)'', ''PSP''))"
    by (simp add: row_tasks_text)
qed (rule ex_district ex_row)+

theorem filename_as_built_witness:
  "row_tasks ''D'' ''photos''
     [''AC No. & AC Name'' \<mapsto> Some ''[x]'', ''Polling Station No.'' \<mapsto> Some '' 12 '',
      ''Polling Station Type'' \<mapsto> Some ''Main '',
      ''Photo of Polling Station Building (PSB)'' \<mapsto> None,
      ''Photo of Polling Station Premises with PS Building (PSP)'' \<mapsto> Some ''/d/A-1/view'']
   = Inr [(''A-1'', ''photos/D-Unknown-PS012-Main-PSP-A-1.jpg'')]"
  using filename_as_built [where batch_label = "''D''" and output_dir = "''photos''"
      and station = "'' 12 ''" and station_type = "''Main ''" and composite = "''[x]''"
      and r = "[''AC No. & AC Name'' \<mapsto> Some ''[x]'',
      ''Polling Station No.'' \<mapsto> Some '' 12 '',
      ''Polling Station Type'' \<mapsto> Some ''Main '',
      ''Photo of Polling Station Building (PSB)'' \<mapsto> None,
      ''Photo of Polling Station Premises with PS Building (PSP)'' \<mapsto> Some ''/d/A-1/view'']"]
  by (simp add: photo_tasks_def row_get_def extract_file_id_def built_filename_def strip_def
      zfill_def path_join_def sanitize_filename_def char_class_defs)

text \<open>
  C3 as the specification words it fails on three kinds of rows. A station type with
  surrounding white space is trimmed by the code before it is sanitized, so no underscore
  stands for that space. An empty composite field gives the label \<open>Unknown\<close>, not the
  empty label. And for a row with a \<open>None\<close> cell in the station number no filename is
  constructed: the Task Builder raises.
\<close>

theorem filename_as_claimed_counterexample:
  "row_tasks ''D'' ''photos''
       [''AC No. & AC Name'' \<mapsto> Some ''4-Bagaha [1-Paschim Champaran]'',
        ''Polling Station No.'' \<mapsto> Some ''7'',
        ''Polling Station Type'' \<mapsto> Some ''Auxiliary '',
        ''Photo of Polling Station Building (PSB)'' \<mapsto> Some ''https://host/open?id=ABC123'']
     = Inr [(''ABC123'', ''photos/D-4-Bagaha-PS007-Auxiliary-PSB-ABC123.jpg'')]
   \<and> claimed_filename ''D'' ''4-Bagaha [1-Paschim Champaran]'' ''7'' ''Auxiliary '' ''PSB'' ''ABC123''
     = ''D-4-Bagaha-PS007-Auxiliary_-PSB-ABC123.jpg''
   \<and> row_tasks ''D'' ''photos''
       [''AC No. & AC Name'' \<mapsto> Some [],
        ''Polling Station No.'' \<mapsto> Some ''7'',
        ''Polling Station Type'' \<mapsto> Some ''Auxiliary'',
        ''Photo of Polling Station Building (PSB)'' \<mapsto> Some ''https://host/open?id=ABC123'']
     = Inr [(''ABC123'', ''photos/D-Unknown-PS007-Auxiliary-PSB-ABC123.jpg'')]
   \<and> claimed_filename ''D'' [] ''7'' ''Auxiliary'' ''PSB'' ''ABC123''
     = ''D--PS007-Auxiliary-PSB-ABC123.jpg''
   \<and> row_tasks ''D'' ''photos''
       [''AC No. & AC Name'' \<mapsto> Some ''4-Bagaha [1-Paschim Champaran]'',
        ''Polling Station No.'' \<mapsto> None,
        ''Polling Station Type'' \<mapsto> None,
        ''Photo of Polling Station Building (PSB)'' \<mapsto> None]
     = Inl AttributeError"
  by (simp add: row_tasks_def column_tasks_def photo_columns_def row_get_def
      constituency_of_def match_before_bracket_def output_filename_def extract_file_id_def
      claimed_filename_def sub_region_label_def strip_def zfill_def numeral_2_eq_2
      path_join_def sanitize_filename_def char_class_defs)

text \<open>
  C10. Where the cells of the station number and the station type are text, a row whose
  composite field is absent, empty or starts with a bracket gets the sub-region label
  \<open>Unknown\<close>, and its photo fields give their tasks with that label. But a line of
  the file that ends before the station number leaves that cell \<open>None\<close>, as the line
  \<open>[x]\<close> does: then the Task Builder raises \<open>AttributeError\<close>, and the batch returns no
  summary.
\<close>

theorem short_row_raises:
  "(row_get r ''Polling Station No.'' = Some station
      \<and> row_get r ''Polling Station Type'' = Some station_type
      \<and> row_get r ''AC No. & AC Name'' = Some composite
      \<and> (composite = [] \<or> hd composite = CHR ''['') \<longrightarrow>
    row_tasks district output_dir r =
      Inr (concat (map (\<lambda>col. case row_get r (fst col) of
                           None \<Rightarrow> []
                         | Some drive_url \<Rightarrow>
                             (case extract_file_id drive_url of
                                None \<Rightarrow> []
                              | Some file_id \<Rightarrow>
                                  [(file_id,
                                    path_join output_dir
                                      (output_filename (sanitize_filename district) ''Unknown''
                                         (zfill 3 (strip station))
                                         (sanitize_filename (strip station_type))
                                         (snd col) file_id))]))
                     photo_columns)))
   \<and> (row_get r ''Polling Station No.'' = None \<longrightarrow>
        row_tasks district output_dir r = Inl AttributeError)
   \<and> row_tasks ''D'' ''photos''
         [''AC No. & AC Name'' \<mapsto> Some ''[x]'',
          ''Polling Station No.'' \<mapsto> None,
          ''Polling Station Type'' \<mapsto> None,
          ''Photo of Polling Station Building (PSB)'' \<mapsto> None,
          ''Photo of Polling Station Premises with PS Building (PSP)'' \<mapsto> None]
       = Inl AttributeError
   \<and> process_csv_file tr ''data/D-photo-links.csv''
         [[''AC No. & AC Name'' \<mapsto> Some ''[x]'',
           ''Polling Station No.'' \<mapsto> None,
           ''Polling Station Type'' \<mapsto> None,
           ''Photo of Polling Station Building (PSB)'' \<mapsto> None,
           ''Photo of Polling Station Premises with PS Building (PSP)'' \<mapsto> None]]
         ''photos'' w
       = Inl AttributeError"
proof (intro conjI impI)
  assume a: "row_get r ''Polling Station No.'' = Some station
      \<and> row_get r ''Polling Station Type'' = Some station_type
      \<and> row_get r ''AC No. & AC Name'' = Some composite
      \<and> (composite = [] \<or> hd composite = CHR ''['')"
  then have "constituency_of composite = ''Unknown''"
    by (simp add: constituency_of_eq)
  with a show "row_tasks district output_dir r =
      Inr (concat (map (\<lambda>col. case row_get r (fst col) of
                           None \<Rightarrow> []
                         | Some drive_url \<Rightarrow>
                             (case extract_file_id drive_url of
                                None \<Rightarrow> []
                              | Some file_id \<Rightarrow>
                                  [(file_id,
                                    path_join output_dir
                                      (output_filename (sanitize_filename district) ''Unknown''
                                         (zfill 3 (strip station))
                                         (sanitize_filename (strip station_type))
                                         (snd col) file_id))]))
                     photo_columns))"
    by (auto simp: row_tasks_text photo_tasks_def built_filename_def output_filename_def
        photo_columns_def split: option.splits)
next
  assume "row_get r ''Polling Station No.'' = None"
  then show "row_tasks district output_dir r = Inl AttributeError"
    by (rule row_tasks_no_station)
next
  show "row_tasks ''D'' ''photos''
         [''AC No. & AC Name'' \<mapsto> Some ''[x]'',
          ''Polling Station No.'' \<mapsto> None,
          ''Polling Station Type'' \<mapsto> None,
          ''Photo of Polling Station Building (PSB)'' \<mapsto> None,
          ''Photo of Polling Station Premises with PS Building (PSP)'' \<mapsto> None]
       = Inl AttributeError"
    by (simp add: row_tasks_def row_get_def)
  show "process_csv_file tr ''data/D-photo-links.csv''
         [[''AC No. & AC Name'' \<mapsto> Some ''[x]'',
           ''Polling Station No.'' \<mapsto> None,
           ''Polling Station Type'' \<mapsto> None,
           ''Photo of Polling Station Building (PSB)'' \<mapsto> None,
           ''Photo of Polling Station Premises with PS Building (PSP)'' \<mapsto> None]]
         ''photos'' w
       = Inl AttributeError"
    by (simp add: process_csv_file_def build_tasks_def row_tasks_def row_get_def)
qed

theorem short_row_raises_witness:
  "row_tasks ''D'' ''photos''
     [''AC No. & AC Name'' \<mapsto> Some ''[x]'',
      ''Polling Station No.'' \<mapsto> Some ''7'', ''Polling Station Type'' \<mapsto> Some ''Main'',
      ''Photo of Polling Station Building (PSB)'' \<mapsto> Some ''id=A'']
   = Inr [(''A'', ''photos/D-Unknown-PS007-Main-PSB-A.jpg'')]
   \<and> row_tasks ''D'' ''photos''
     [''AC No. & AC Name'' \<mapsto> Some ''[x]'',
      ''Polling Station No.'' \<mapsto> None, ''Polling Station Type'' \<mapsto> Some ''Main'',
      ''Photo of Polling Station Building (PSB)'' \<mapsto> Some ''id=A'']
   = Inl AttributeError"
  using short_row_raises [where district = "''D''" and output_dir = "''photos''"
      and station = "''7''" and station_type = "''Main''" and composite = "''[x]''"
      and r = "[''AC No. & AC Name'' \<mapsto> Some ''[x]'',
      ''Polling Station No.'' \<mapsto> Some ''7'', ''Polling Station Type'' \<mapsto> Some ''Main'',
      ''Photo of Polling Station Building (PSB)'' \<mapsto> Some ''id=A'']"]
    short_row_raises [where district = "''D''" and output_dir = "''photos''"
      and r = "[''AC No. & AC Name'' \<mapsto> Some ''[x]'',
      ''Polling Station No.'' \<mapsto> None, ''Polling Station Type'' \<mapsto> Some ''Main'',
      ''Photo of Polling Station Building (PSB)'' \<mapsto> Some ''id=A'']"]
  by (simp add: photo_columns_def row_get_def extract_file_id_def output_filename_def
      strip_def zfill_def numeral_2_eq_2 path_join_def sanitize_filename_def char_class_defs)

end
